theory Spec2Isabelle
  imports Complex_Main
begin

section \<open>Values of a float64 array\<close>

text \<open>
  An entry of a numpy float64 array is a finite number, one of the two infinities, or
  not-a-number. Finite arithmetic is modelled exactly, over the reals: rounding, overflow
  and underflow are left out, and there is one zero. The special values follow IEEE 754
  as numpy applies it.
\<close>

datatype fval = Fin real | PInf | NInf | NaN

datatype error = IndexError | ValueError | OverflowError | ZeroDivisionError | BroadcastError

definition inf_of_sign :: "real \<Rightarrow> fval" where
  "inf_of_sign s = (if 0 < s then PInf else if s < 0 then NInf else NaN)"

fun fneg :: "fval \<Rightarrow> fval" where
  "fneg (Fin x) = Fin (- x)"
| "fneg PInf = NInf"
| "fneg NInf = PInf"
| "fneg NaN = NaN"

fun fadd :: "fval \<Rightarrow> fval \<Rightarrow> fval" where
  "fadd (Fin x) (Fin y) = Fin (x + y)"
| "fadd (Fin x) PInf = PInf"
| "fadd (Fin x) NInf = NInf"
| "fadd PInf (Fin y) = PInf"
| "fadd PInf PInf = PInf"
| "fadd PInf NInf = NaN"
| "fadd NInf (Fin y) = NInf"
| "fadd NInf PInf = NaN"
| "fadd NInf NInf = NInf"
| "fadd NaN b = NaN"
| "fadd a NaN = NaN"

definition fsub :: "fval \<Rightarrow> fval \<Rightarrow> fval" where
  "fsub a b = fadd a (fneg b)"

fun fmul :: "fval \<Rightarrow> fval \<Rightarrow> fval" where
  "fmul (Fin x) (Fin y) = Fin (x * y)"
| "fmul (Fin x) PInf = inf_of_sign x"
| "fmul (Fin x) NInf = inf_of_sign (- x)"
| "fmul PInf (Fin y) = inf_of_sign y"
| "fmul PInf PInf = PInf"
| "fmul PInf NInf = NInf"
| "fmul NInf (Fin y) = inf_of_sign (- y)"
| "fmul NInf PInf = NInf"
| "fmul NInf NInf = PInf"
| "fmul NaN b = NaN"
| "fmul a NaN = NaN"

text \<open>
  Array division (numpy): a division by zero gives an infinity, or not-a-number for
  \<open>0 / 0\<close>, and raises nothing.
\<close>

fun fdiv :: "fval \<Rightarrow> fval \<Rightarrow> fval" where
  "fdiv (Fin x) (Fin y) = (if y = 0 then inf_of_sign x else Fin (x / y))"
| "fdiv (Fin x) PInf = Fin 0"
| "fdiv (Fin x) NInf = Fin 0"
| "fdiv PInf (Fin y) = (if 0 \<le> y then PInf else NInf)"
| "fdiv NInf (Fin y) = (if 0 \<le> y then NInf else PInf)"
| "fdiv PInf PInf = NaN"
| "fdiv PInf NInf = NaN"
| "fdiv NInf PInf = NaN"
| "fdiv NInf NInf = NaN"
| "fdiv NaN b = NaN"
| "fdiv a NaN = NaN"

text \<open>
  Scalar division in the kernels, with Python's semantics: a zero divisor raises. The
  compiled parallel loop raises nothing there and carries on with the IEEE quotient; a
  population size of zero is outside the data contract of the embedding, and no
  statement below depends on this case.
\<close>

definition njit_div :: "fval \<Rightarrow> fval \<Rightarrow> error + fval" where
  "njit_div a b = (if b = Fin 0 then Inl ZeroDivisionError else Inr (fdiv a b))"

fun fexp :: "fval \<Rightarrow> fval" where
  "fexp (Fin x) = Fin (exp x)"
| "fexp PInf = PInf"
| "fexp NInf = Fin 0"
| "fexp NaN = NaN"

fun flog :: "fval \<Rightarrow> fval" where
  "flog (Fin x) = (if 0 < x then Fin (ln x) else if x = 0 then NInf else NaN)"
| "flog PInf = PInf"
| "flog NInf = NaN"
| "flog NaN = NaN"

text \<open>Comparisons: every comparison with not-a-number is false.\<close>

fun fgt :: "fval \<Rightarrow> fval \<Rightarrow> bool" where
  "fgt (Fin x) (Fin y) = (y < x)"
| "fgt (Fin x) NInf = True"
| "fgt PInf (Fin y) = True"
| "fgt PInf NInf = True"
| "fgt a b = False"

fun fle :: "fval \<Rightarrow> fval \<Rightarrow> bool" where
  "fle (Fin x) (Fin y) = (x \<le> y)"
| "fle (Fin x) PInf = True"
| "fle NInf (Fin y) = True"
| "fle NInf NInf = True"
| "fle NInf PInf = True"
| "fle PInf PInf = True"
| "fle a b = False"

fun feq :: "fval \<Rightarrow> fval \<Rightarrow> bool" where
  "feq (Fin x) (Fin y) = (x = y)"
| "feq PInf PInf = True"
| "feq NInf NInf = True"
| "feq a b = False"

fun isinf :: "fval \<Rightarrow> bool" where
  "isinf PInf = True"
| "isinf NInf = True"
| "isinf a = False"

fun isnan :: "fval \<Rightarrow> bool" where
  "isnan NaN = True"
| "isnan a = False"

text \<open>
  \<open>int(x)\<close>: truncation towards zero. Not-a-number and the infinities raise, as in
  Python; compiled code casts without a check. An interval identifier is a finite
  integer by the data contract.
\<close>

fun py_int :: "fval \<Rightarrow> error + int" where
  "py_int (Fin x) = Inr (if 0 \<le> x then \<lfloor>x\<rfloor> else \<lceil>x\<rceil>)"
| "py_int NaN = Inl ValueError"
| "py_int a = Inl OverflowError"

text \<open>\<open>a.sum()\<close> of a one-dimensional array; the sum of no entries is zero.\<close>

definition fsum :: "fval list \<Rightarrow> fval" where
  "fsum xs = foldl fadd (Fin 0) xs"

section \<open>The embedding array\<close>

text \<open>
  The embedding is a three-dimensional array indexed by genealogy, interval row and
  column. Column 2 is the species-interval identifier, column 3 the population size,
  column 4 the number of lineages and column 5 the length of the row's sub-interval.
  An array narrower than the columns a function reads, an empty array and an empty
  group of rows are rejected with the \<open>IndexError\<close> that numpy raises on the access.
  The compiled kernels check no bounds; such arrays are outside the data contract, where
  every genealogy has rows for every interval.
\<close>

type_synonym row = "fval list"
type_synonym ndarray3 = "row list list"

definition has_cols :: "nat \<Rightarrow> ndarray3 \<Rightarrow> bool" where
  "has_cols k emb = list_all (list_all (\<lambda>r. k \<le> length r)) emb"

section \<open>The MSC log-likelihood kernels\<close>

text \<open>
  The two kernels of \<open>msc/src/likelihood.py\<close> differ in the line that computes the
  coalescent rate of an interval and in nothing else. The statements after that line
  mention the rate and the interval's rows only; they are modelled once, with the rate
  as an argument.
\<close>

text \<open>One iteration of \<open>for ridx in range(iarr.shape[0] - 1)\<close>.\<close>

definition coal_step :: "fval \<Rightarrow> row list \<Rightarrow> fval \<Rightarrow> nat \<Rightarrow> fval" where
  "coal_step rate iarr prob ridx =
     (let nedges = iarr ! ridx ! 4;
          npairs = fdiv (fmul nedges (fsub nedges (Fin 1))) (Fin 2);
          lambda = fmul rate npairs;
          dist = iarr ! ridx ! 5
      in fmul prob (fmul rate (fexp (fmul (fneg lambda) dist))))"

text \<open>The running probability after the first \<open>k\<close> iterations, from \<open>prob = 1.\<close>\<close>

definition coal_events :: "fval \<Rightarrow> row list \<Rightarrow> nat \<Rightarrow> fval" where
  "coal_events rate iarr k = foldl (coal_step rate iarr) (Fin 1) [0..<k]"

text \<open>The last row of the group: no coalescence in the remaining time.\<close>

definition no_coal :: "fval \<Rightarrow> row list \<Rightarrow> fval \<Rightarrow> fval" where
  "no_coal rate iarr prob =
     (let nedges = last iarr ! 4;
          npairs = fdiv (fmul nedges (fsub nedges (Fin 1))) (Fin 2);
          lambda = fmul rate npairs;
          dist = last iarr ! 5
      in if \<not> isinf dist then fmul prob (fexp (fmul (fneg lambda) dist)) else prob)"

definition interval_prob :: "fval \<Rightarrow> row list \<Rightarrow> fval" where
  "interval_prob rate iarr = no_coal rate iarr (coal_events rate iarr (length iarr - 1))"

text \<open>\<open>if prob > 0: loglik += np.log(prob) else: loglik += np.inf\<close>\<close>

definition store_loglik :: "fval \<Rightarrow> fval \<Rightarrow> fval" where
  "store_loglik loglik prob =
     (if fgt prob (Fin 0) then fadd loglik (flog prob) else fadd loglik PInf)"

text \<open>\<open>garr[garr[:, 2] == sval]\<close>\<close>

definition select_interval :: "row list \<Rightarrow> nat \<Rightarrow> row list" where
  "select_interval garr sval = filter (\<lambda>r. feq (r ! 2) (Fin (real sval))) garr"

subsection \<open>Population sizes stored as diploid Ne\<close>

fun sval_loop_array :: "row list \<Rightarrow> nat list \<Rightarrow> fval \<Rightarrow> error + fval" where
  "sval_loop_array garr [] loglik = Inr loglik"
| "sval_loop_array garr (sval # svals) loglik =
     (let iarr = select_interval garr sval
      in if iarr = [] then Inl IndexError
         else case njit_div (Fin 1) (fmul (Fin 2) (iarr ! 0 ! 3)) of
                Inl e \<Rightarrow> Inl e
              | Inr rate \<Rightarrow>
                  sval_loop_array garr svals (store_loglik loglik (interval_prob rate iarr)))"

fun gidx_loop_array :: "int \<Rightarrow> ndarray3 \<Rightarrow> error + fval list" where
  "gidx_loop_array nspecies [] = Inr []"
| "gidx_loop_array nspecies (garr # rest) =
     (case sval_loop_array garr [0..<nat (nspecies + 1)] (Fin 0) of
        Inl e \<Rightarrow> Inl e
      | Inr loglik \<Rightarrow>
          (case gidx_loop_array nspecies rest of
             Inl e \<Rightarrow> Inl e
           | Inr logliks \<Rightarrow> Inr (loglik # logliks)))"

definition get_msc_loglik_from_embedding_array :: "ndarray3 \<Rightarrow> error + fval" where
  "get_msc_loglik_from_embedding_array embedding =
     (if embedding = [] then Inl IndexError
      else if embedding ! 0 = [] then Inl IndexError
      else if \<not> has_cols 6 embedding then Inl IndexError
      else case py_int (last (embedding ! 0) ! 2) of
             Inl e \<Rightarrow> Inl e
           | Inr nspecies \<Rightarrow>
               (case gidx_loop_array nspecies embedding of
                  Inl e \<Rightarrow> Inl e
                | Inr logliks \<Rightarrow> Inr (fneg (fsum logliks))))"

subsection \<open>Population sizes stored as twice the diploid Ne\<close>

fun sval_loop :: "row list \<Rightarrow> nat list \<Rightarrow> fval \<Rightarrow> error + fval" where
  "sval_loop garr [] loglik = Inr loglik"
| "sval_loop garr (sval # svals) loglik =
     (let iarr = select_interval garr sval
      in if iarr = [] then Inl IndexError
         else case njit_div (Fin 1) (iarr ! 0 ! 3) of
                Inl e \<Rightarrow> Inl e
              | Inr rate \<Rightarrow>
                  sval_loop garr svals (store_loglik loglik (interval_prob rate iarr)))"

fun gidx_loop :: "int \<Rightarrow> ndarray3 \<Rightarrow> error + fval list" where
  "gidx_loop nspecies [] = Inr []"
| "gidx_loop nspecies (garr # rest) =
     (case sval_loop garr [0..<nat (nspecies + 1)] (Fin 0) of
        Inl e \<Rightarrow> Inl e
      | Inr loglik \<Rightarrow>
          (case gidx_loop nspecies rest of
             Inl e \<Rightarrow> Inl e
           | Inr logliks \<Rightarrow> Inr (loglik # logliks)))"

definition get_msc_loglik_from_embedding :: "ndarray3 \<Rightarrow> error + fval" where
  "get_msc_loglik_from_embedding embedding =
     (if embedding = [] then Inl IndexError
      else if embedding ! 0 = [] then Inl IndexError
      else if \<not> has_cols 6 embedding then Inl IndexError
      else case py_int (last (embedding ! 0) ! 2) of
             Inl e \<Rightarrow> Inl e
           | Inr nspecies \<Rightarrow>
               (case gidx_loop nspecies embedding of
                  Inl e \<Rightarrow> Inl e
                | Inr logliks \<Rightarrow> Inr (fneg (fsum logliks))))"

text \<open>\<open>emb[:, :, 3] = emb[:, :, 3] * 2.\<close>: the array with column 3 doubled.\<close>

definition double_neff :: "ndarray3 \<Rightarrow> ndarray3" where
  "double_neff emb = map (map (\<lambda>r. r[3 := fmul (r ! 3) (Fin 2)])) emb"

section \<open>The population-size update utility\<close>

text \<open>
  \<open>len(set(popsizes))\<close>: the number of distinct entries. Two entries are the same
  element of the set when they compare equal; not-a-number compares unequal to
  everything, itself included, so each such entry is an element of its own.
\<close>

fun py_set_len :: "fval list \<Rightarrow> nat" where
  "py_set_len [] = 0"
| "py_set_len (x # xs) = (if list_ex (feq x) xs then py_set_len xs else Suc (py_set_len xs))"

text \<open>\<open>mask = emb[:, :, 2] == idx; emb[mask, 3] = popsize\<close>\<close>

definition assign_branch :: "ndarray3 \<Rightarrow> nat \<Rightarrow> fval \<Rightarrow> ndarray3" where
  "assign_branch emb idx popsize =
     map (map (\<lambda>r. if feq (r ! 2) (Fin (real idx)) then r[3 := popsize] else r)) emb"

fun branch_loop :: "ndarray3 \<Rightarrow> (nat \<times> fval) list \<Rightarrow> ndarray3" where
  "branch_loop emb [] = emb"
| "branch_loop emb ((idx, popsize) # rest) = branch_loop (assign_branch emb idx popsize) rest"

text \<open>
  The source mutates the array in place and returns nothing; the model returns the
  array after the call.
\<close>

definition update_neffs :: "ndarray3 \<Rightarrow> fval list \<Rightarrow> error + ndarray3" where
  "update_neffs emb popsizes =
     (if py_set_len popsizes = 1 then
        (if has_cols 4 emb then Inr (map (map (\<lambda>r. r[3 := popsizes ! 0])) emb)
         else Inl IndexError)
      else if popsizes = [] then Inr emb
      else if has_cols 4 emb then Inr (branch_loop emb (enumerate 0 popsizes))
      else Inl IndexError)"

section \<open>The waiting-distance log-likelihood kernel\<close>

text \<open>
  \<open>get_recomb_event_lambdas(sarr, recombination_rate, *args, **kwargs)\<close>: the keyword
  arguments of the call other than \<open>sarr\<close> and \<open>recombination_rate\<close> are collected in
  \<open>kwargs\<close>.
\<close>

definition get_recomb_event_lambdas :: "fval list \<Rightarrow> fval \<Rightarrow> 'k \<Rightarrow> fval list" where
  "get_recomb_event_lambdas sarr recombination_rate kwargs = map (fmul recombination_rate) sarr"

text \<open>
  A \<open>TreeEmbedding\<close> holds the embedding array and the auxiliary arrays. The kernel reads
  the encoding, branch-length and relationship arrays only to hand them to a rate
  provider, so their types are left open; \<open>sarr\<close> holds one total branch length per
  genealogy.
\<close>

record ('e, 'b, 'r) TreeEmbedding =
  emb :: ndarray3
  enc :: 'e
  barr :: 'b
  sarr :: "fval list"
  rarr :: 'r

text \<open>
  The providers of the tree-change and topology-change rates are imported from modules
  outside this development. They are arguments of the kernel here, with the signature
  of the call \<open>rate_function(emb, enc, barr, sarr, rarr, recombination_rate, idxs)\<close>.
\<close>

type_synonym ('e, 'b, 'r) rate_function =
  "ndarray3 \<Rightarrow> 'e \<Rightarrow> 'b \<Rightarrow> fval list \<Rightarrow> 'r \<Rightarrow> fval \<Rightarrow> int list \<Rightarrow> error + fval list"

text \<open>Lines 84 to 105 of the kernel: the choice of the provider, the index array, the call.\<close>

definition waiting_rates ::
  "('e, 'b, 'r) rate_function \<Rightarrow> ('e, 'b, 'r) rate_function \<Rightarrow> ('e, 'b, 'r) TreeEmbedding
     \<Rightarrow> fval \<Rightarrow> int \<Rightarrow> int list option \<Rightarrow> error + fval list" where
  "waiting_rates get_tree_changed_lambdas get_topo_changed_lambdas embedding
       recombination_rate event_type idxs_arg =
     (let idxs = (case idxs_arg of
                    None \<Rightarrow> map int [0..<length (emb embedding)]
                  | Some given \<Rightarrow> given)
      in if event_type = 0 then
           Inr (get_recomb_event_lambdas (sarr embedding) recombination_rate
                  (emb embedding, enc embedding, barr embedding, rarr embedding, idxs))
         else if event_type = 1 then
           get_tree_changed_lambdas (emb embedding) (enc embedding) (barr embedding)
             (sarr embedding) (rarr embedding) recombination_rate idxs
         else
           get_topo_changed_lambdas (emb embedding) (enc embedding) (barr embedding)
             (sarr embedding) (rarr embedding) recombination_rate idxs)"

text \<open>
  numpy broadcasting of two one-dimensional arrays: equal lengths pair up, an array of
  length one is repeated, any other pair of lengths raises.
\<close>

definition broadcast2 :: "'a list \<Rightarrow> 'b list \<Rightarrow> error + ('a \<times> 'b) list" where
  "broadcast2 xs ys =
     (if length xs = length ys then Inr (zip xs ys)
      else if length xs = 1 then Inr (map (Pair (xs ! 0)) ys)
      else if length ys = 1 then Inr (map (\<lambda>x. (x, ys ! 0)) xs)
      else Inl BroadcastError)"

text \<open>
  \<open>scipy.stats.expon.logpdf(x, scale=scale)\<close> at one point, with \<open>loc = 0\<close>: the
  argument is standardised to \<open>y = (x - loc) / scale\<close>; a scale that is not positive
  or a \<open>y\<close> that is not a number gives not-a-number; inside the support \<open>[0, inf]\<close> the
  value is \<open>- y - log(scale)\<close>; outside it is minus infinity.
\<close>

definition expon_logpdf1 :: "fval \<Rightarrow> fval \<Rightarrow> fval" where
  "expon_logpdf1 x scale =
     (let y = fdiv (fsub x (Fin 0)) scale
      in if \<not> fgt scale (Fin 0) \<or> isnan y then NaN
         else if fle (Fin 0) y \<and> fle y PInf then fsub (fneg y) (flog scale)
         else NInf)"

definition expon_logpdf :: "fval list \<Rightarrow> fval list \<Rightarrow> error + fval list" where
  "expon_logpdf scale x =
     (case broadcast2 x scale of
        Inl e \<Rightarrow> Inl e
      | Inr pairs \<Rightarrow> Inr (map (\<lambda>(xi, si). expon_logpdf1 xi si) pairs))"

definition get_ms_smc_loglik_from_embedding ::
  "('e, 'b, 'r) rate_function \<Rightarrow> ('e, 'b, 'r) rate_function \<Rightarrow> ('e, 'b, 'r) TreeEmbedding
     \<Rightarrow> fval \<Rightarrow> fval list \<Rightarrow> int \<Rightarrow> int list option \<Rightarrow> error + fval" where
  "get_ms_smc_loglik_from_embedding get_tree_changed_lambdas get_topo_changed_lambdas
       embedding recombination_rate lengths event_type idxs_arg =
     (case waiting_rates get_tree_changed_lambdas get_topo_changed_lambdas embedding
             recombination_rate event_type idxs_arg of
        Inl e \<Rightarrow> Inl e
      | Inr rates \<Rightarrow>
          (case expon_logpdf (map (fdiv (Fin 1)) rates) lengths of
             Inl e \<Rightarrow> Inl e
           | Inr logliks \<Rightarrow> Inr (fneg (fsum logliks))))"

text \<open>
  Two providers that honour the contract of one rate per selected genealogy, and an
  embedding of three genealogies, for evaluating the kernel at concrete inputs.
\<close>

definition unit_tree_lambdas :: "(unit, unit, unit) rate_function" where
  "unit_tree_lambdas e n b s r recombination_rate idxs = Inr (replicate (length idxs) (Fin 1))"

definition unit_topo_lambdas :: "(unit, unit, unit) rate_function" where
  "unit_topo_lambdas e n b s r recombination_rate idxs = Inr (replicate (length idxs) (Fin 2))"

definition three_trees :: "(unit, unit, unit) TreeEmbedding" where
  "three_trees =
     \<lparr>emb = [[[Fin 0, Fin 4, Fin 0, Fin 1, Fin 2, Fin 4], [Fin 4, PInf, Fin 0, Fin 1, Fin 1, PInf]],
             [[Fin 0, Fin 6, Fin 0, Fin 1, Fin 2, Fin 6], [Fin 6, PInf, Fin 0, Fin 1, Fin 1, PInf]],
             [[Fin 0, Fin 8, Fin 0, Fin 1, Fin 2, Fin 8], [Fin 8, PInf, Fin 0, Fin 1, Fin 1, PInf]]],
      enc = (), barr = (), sarr = [Fin 10, Fin 20, Fin 30], rarr = ()\<rparr>"

section \<open>Equivalence of the two conventions\<close>

lemma fmul_two_commute: "fmul a (Fin 2) = fmul (Fin 2) a"
  by (cases a) (simp_all add: inf_of_sign_def)

lemma coal_events_cong:
  assumes "length iarr' = length iarr"
    and "\<And>i. i < length iarr \<Longrightarrow> iarr' ! i ! 4 = iarr ! i ! 4 \<and> iarr' ! i ! 5 = iarr ! i ! 5"
    and "k \<le> length iarr"
  shows "coal_events rate iarr' k = coal_events rate iarr k"
  using assms(3)
proof (induction k)
  case 0
  show ?case by (simp add: coal_events_def)
next
  case (Suc k)
  then have "k < length iarr" by simp
  with assms(2) have "coal_step rate iarr' p k = coal_step rate iarr p k" for p
    by (simp add: coal_step_def)
  with Suc show ?case by (simp add: coal_events_def)
qed

lemma interval_prob_cong:
  assumes "length iarr' = length iarr"
    and "\<And>i. i < length iarr \<Longrightarrow> iarr' ! i ! 4 = iarr ! i ! 4 \<and> iarr' ! i ! 5 = iarr ! i ! 5"
  shows "interval_prob rate iarr' = interval_prob rate iarr"
proof (cases "iarr = []")
  case True
  with assms(1) show ?thesis by simp
next
  case False
  with assms(1) have ne: "iarr' \<noteq> []" by auto
  have l: "last iarr' = iarr' ! (length iarr - 1)" "last iarr = iarr ! (length iarr - 1)"
    using False ne assms(1) by (simp_all add: last_conv_nth)
  have "length iarr - 1 < length iarr" using False by (simp add: Suc_leI)
  with assms(2) l have "last iarr' ! 4 = last iarr ! 4" "last iarr' ! 5 = last iarr ! 5"
    by simp_all
  then have "no_coal rate iarr' p = no_coal rate iarr p" for p
    by (simp add: no_coal_def)
  moreover have "coal_events rate iarr' (length iarr - 1) = coal_events rate iarr (length iarr - 1)"
    using assms by (intro coal_events_cong) simp_all
  ultimately show ?thesis by (simp add: interval_prob_def assms(1))
qed

lemma select_interval_map:
  "select_interval (map (\<lambda>r. r[3 := fmul (r ! 3) (Fin 2)]) garr) sval
     = map (\<lambda>r. r[3 := fmul (r ! 3) (Fin 2)]) (select_interval garr sval)"
  by (induction garr) (simp_all add: select_interval_def)

lemma sval_loop_double:
  assumes "list_all (\<lambda>r. 6 \<le> length r) garr"
  shows "sval_loop (map (\<lambda>r. r[3 := fmul (r ! 3) (Fin 2)]) garr) svals loglik
           = sval_loop_array garr svals loglik"
proof (induction svals arbitrary: loglik)
  case Nil
  show ?case by simp
next
  case (Cons sval svals)
  let ?f = "\<lambda>r. r[3 := fmul (r ! 3) (Fin 2)]"
  let ?iarr = "select_interval garr sval"
  show ?case
  proof (cases "?iarr = []")
    case True
    then show ?thesis by (simp add: select_interval_map)
  next
    case False
    have all6: "list_all (\<lambda>r. 6 \<le> length r) ?iarr"
      using assms by (simp add: select_interval_def list_all_iff)
    from False have "?iarr ! 0 \<in> set ?iarr" by simp
    with all6 have len0: "6 \<le> length (?iarr ! 0)" by (simp add: list_all_iff)
    have sel: "select_interval (map ?f garr) sval = map ?f ?iarr"
      by (rule select_interval_map)
    have rate: "map ?f ?iarr ! 0 ! 3 = fmul (Fin 2) (?iarr ! 0 ! 3)"
      using False len0 by (simp add: fmul_two_commute)
    have ip: "interval_prob rate (map ?f ?iarr) = interval_prob rate ?iarr" for rate
      by (rule interval_prob_cong) simp_all
    have "sval_loop (map ?f garr) (sval # svals) loglik =
            (case njit_div (Fin 1) (map ?f ?iarr ! 0 ! 3) of
               Inl e \<Rightarrow> Inl e
             | Inr rate \<Rightarrow> sval_loop (map ?f garr) svals
                              (store_loglik loglik (interval_prob rate (map ?f ?iarr))))"
      using False by (simp only: sval_loop.simps Let_def sel) simp
    also have "\<dots> = (case njit_div (Fin 1) (fmul (Fin 2) (?iarr ! 0 ! 3)) of
               Inl e \<Rightarrow> Inl e
             | Inr rate \<Rightarrow> sval_loop_array garr svals
                              (store_loglik loglik (interval_prob rate ?iarr)))"
      by (simp only: rate ip Cons.IH)
    also have "\<dots> = sval_loop_array garr (sval # svals) loglik"
      using False by (simp add: Let_def)
    finally show ?thesis .
  qed
qed

lemma gidx_loop_double:
  assumes "has_cols 6 a"
  shows "gidx_loop n (double_neff a) = gidx_loop_array n a"
  using assms
proof (induction a)
  case Nil
  show ?case by (simp add: double_neff_def)
next
  case (Cons garr rest)
  then have g: "list_all (\<lambda>r. 6 \<le> length r) garr" and r: "has_cols 6 rest"
    by (simp_all add: has_cols_def)
  from Cons.IH[OF r] have ih: "gidx_loop n (map (map (\<lambda>r. r[3 := fmul (r ! 3) (Fin 2)])) rest) = gidx_loop_array n rest"
    by (simp add: double_neff_def)
  show ?case
    by (simp add: double_neff_def sval_loop_double[OF g] ih split: sum.splits)
qed

lemma has_cols_double: "has_cols k (double_neff a) = has_cols k a"
  by (simp add: has_cols_def double_neff_def list_all_iff)

lemma double_neff_Nil: "double_neff a = [] \<longleftrightarrow> a = []"
  by (simp add: double_neff_def)

lemma double_neff_hd:
  "a \<noteq> [] \<Longrightarrow> double_neff a ! 0 = map (\<lambda>r. r[3 := fmul (r ! 3) (Fin 2)]) (a ! 0)"
  by (simp add: double_neff_def)

text \<open>
  Claim C1. The kernel that reads column 3 as diploid Ne, applied to an embedding array,
  returns what the kernel that reads column 3 as twice the diploid Ne returns on the same
  array with every entry of column 3 multiplied by 2. This holds for every array, and so
  for the arrays whose population sizes are finite and positive; where one kernel raises,
  the other raises the same error.
\<close>

theorem convention_equivalence:
  "get_msc_loglik_from_embedding_array a = get_msc_loglik_from_embedding (double_neff a)"
proof (cases "a = [] \<or> a ! 0 = [] \<or> \<not> has_cols 6 a")
  case True
  then show ?thesis
    by (auto simp: get_msc_loglik_from_embedding_def get_msc_loglik_from_embedding_array_def
        has_cols_double double_neff_Nil double_neff_hd)
next
  case False
  then have ne: "a \<noteq> []" "a ! 0 \<noteq> []" and hc: "has_cols 6 a" by simp_all
  have "last (double_neff a ! 0) ! 2 = last (a ! 0) ! 2"
    using ne by (simp add: double_neff_hd last_map)
  then show ?thesis
    using ne hc
    by (simp add: get_msc_loglik_from_embedding_def get_msc_loglik_from_embedding_array_def
        has_cols_double gidx_loop_double double_neff_Nil double_neff_hd cong: sum.case_cong)
qed

theorem convention_equivalence_witness:
  "get_msc_loglik_from_embedding_array (emb three_trees)
     = get_msc_loglik_from_embedding (double_neff (emb three_trees))
   \<and> get_msc_loglik_from_embedding_array (emb three_trees) = Inr (Fin (9 + 3 * ln 2))"
proof -
  have "get_msc_loglik_from_embedding_array (emb three_trees) = Inr (Fin (9 + 3 * ln 2))"
    by (simp add: get_msc_loglik_from_embedding_array_def three_trees_def has_cols_def
        select_interval_def njit_div_def interval_prob_def coal_events_def coal_step_def
        no_coal_def store_loglik_def fsub_def fsum_def ln_div)
  with convention_equivalence [of "emb three_trees"] show ?thesis
    by simp
qed

section \<open>The factors of an interval's probability\<close>

text \<open>
  What an interval contributes, in either kernel: the stored log-likelihood of
  \<open>interval_prob\<close> at the kernel's own coalescent rate, \<open>1 / (2 * Ne)\<close> in the first
  kernel and \<open>1 / Ne\<close> in the second.
\<close>

lemma sval_loop_array_interval:
  assumes "select_interval garr sval \<noteq> []"
    and "select_interval garr sval ! 0 ! 3 = Fin ne" and "ne \<noteq> 0"
  shows "sval_loop_array garr (sval # svals) loglik
           = sval_loop_array garr svals
               (store_loglik loglik
                  (interval_prob (Fin (1 / (2 * ne))) (select_interval garr sval)))"
  using assms by (simp add: Let_def njit_div_def)

lemma sval_loop_interval:
  assumes "select_interval garr sval \<noteq> []"
    and "select_interval garr sval ! 0 ! 3 = Fin ne" and "ne \<noteq> 0"
  shows "sval_loop garr (sval # svals) loglik
           = sval_loop garr svals
               (store_loglik loglik
                  (interval_prob (Fin (1 / ne)) (select_interval garr sval)))"
  using assms by (simp add: Let_def njit_div_def)





section \<open>An interval of probability zero or less\<close>

text \<open>
  Claim C4. A genealogy with one coalescence in a single population whose proposed
  population size is negative has an interval probability below zero. Neither kernel
  raises: the branch for a probability that is not positive adds plus infinity to the
  log-likelihood of the genealogy, and the negation of the sum that the kernel returns
  is then minus infinity, not plus infinity.
\<close>

theorem degenerate_probability_result:
  "interval_prob (Fin (- (1 / 2))) [[Fin 0, Fin 4, Fin 0, Fin (- 1), Fin 2, Fin 4],
                                    [Fin 4, PInf, Fin 0, Fin (- 1), Fin 1, PInf]]
     = Fin (- (exp 2 / 2))
   \<and> get_msc_loglik_from_embedding_array
       [[[Fin 0, Fin 4, Fin 0, Fin (- 1), Fin 2, Fin 4],
         [Fin 4, PInf, Fin 0, Fin (- 1), Fin 1, PInf]]] = Inr NInf
   \<and> get_msc_loglik_from_embedding
       [[[Fin 0, Fin 4, Fin 0, Fin (- 2), Fin 2, Fin 4],
         [Fin 4, PInf, Fin 0, Fin (- 2), Fin 1, PInf]]] = Inr NInf"
  by (simp add: get_msc_loglik_from_embedding_array_def get_msc_loglik_from_embedding_def
      has_cols_def select_interval_def njit_div_def interval_prob_def coal_events_def
      coal_step_def no_coal_def store_loglik_def fsub_def fsum_def)

section \<open>The waiting-distance kernel\<close>

lemma fsum_Fin_aux: "foldl fadd (Fin a) (map Fin xs) = Fin (a + sum_list xs)"
  by (induction xs arbitrary: a) (simp_all add: add.assoc)

lemma fsum_Fin: "fsum (map Fin xs) = Fin (sum_list xs)"
  by (simp add: fsum_def fsum_Fin_aux)

lemma expon_logpdf1_Fin:
  assumes "0 < r" and "0 \<le> l"
  shows "expon_logpdf1 (Fin l) (fdiv (Fin 1) (Fin r)) = Fin (ln r - r * l)"
  using assms by (simp add: expon_logpdf1_def fsub_def ln_div mult.commute)

lemma expon_logpdf_Fin:
  assumes "length ls = length rs" and "\<forall>r\<in>set rs. 0 < r" and "\<forall>l\<in>set ls. 0 \<le> l"
  shows "expon_logpdf (map (fdiv (Fin 1)) (map Fin rs)) (map Fin ls)
           = Inr (map Fin (map (\<lambda>(l, r). ln r - r * l) (zip ls rs)))"
  using assms
proof (induction ls rs rule: list_induct2)
  case Nil
  show ?case by (simp add: expon_logpdf_def broadcast2_def)
next
  case (Cons l ls r rs)
  then have "expon_logpdf (map (fdiv (Fin 1)) (map Fin rs)) (map Fin ls)
           = Inr (map Fin (map (\<lambda>(l, r). ln r - r * l) (zip ls rs)))" by simp
  moreover have "expon_logpdf1 (Fin l) (fdiv (Fin 1) (Fin r)) = Fin (ln r - r * l)"
    using Cons.prems by (intro expon_logpdf1_Fin) simp_all
  ultimately show ?case
    using Cons.hyps by (simp add: expon_logpdf_def broadcast2_def)
qed

text \<open>
  Claim C5. When the rate provider returns strictly positive finite rates and the
  observed waiting distances are finite, non-negative and as many as the rates, the
  kernel returns the negated sum over the genealogies of \<open>ln rate - rate * length\<close>.
  For \<open>N\<close> genealogies that share one rate \<open>r\<close> and one length \<open>l\<close> this is \<open>N\<close> times
  \<open>- (ln r - r * l)\<close>.
\<close>

theorem waiting_distance_loglik:
  assumes "waiting_rates tree_fn topo_fn e rr event_type idxs = Inr (map Fin rs)"
    and "length ls = length rs"
    and "\<forall>r\<in>set rs. 0 < r"
    and "\<forall>l\<in>set ls. 0 \<le> l"
  shows "get_ms_smc_loglik_from_embedding tree_fn topo_fn e rr (map Fin ls) event_type idxs
           = Inr (Fin (- (\<Sum>(l, r)\<leftarrow>zip ls rs. ln r - r * l)))
       \<and> (ls = replicate N l \<and> rs = replicate N r \<longrightarrow>
            get_ms_smc_loglik_from_embedding tree_fn topo_fn e rr (map Fin ls) event_type idxs
              = Inr (Fin (real N * (- (ln r - r * l)))))"
proof -
  have main: "get_ms_smc_loglik_from_embedding tree_fn topo_fn e rr (map Fin ls) event_type idxs
           = Inr (Fin (- (\<Sum>(l, r)\<leftarrow>zip ls rs. ln r - r * l)))"
    using assms(1) expon_logpdf_Fin[OF assms(2,3,4)]
    by (simp add: get_ms_smc_loglik_from_embedding_def fsum_Fin del: map_map)
  have rep: "(\<Sum>(l, r)\<leftarrow>zip (replicate N l) (replicate N r). ln r - r * l)
               = real N * (ln r - r * l)"
    by (induction N) (simp_all add: algebra_simps)
  have "get_ms_smc_loglik_from_embedding tree_fn topo_fn e rr (map Fin ls) event_type idxs
              = Inr (Fin (real N * (- (ln r - r * l))))"
    if "ls = replicate N l \<and> rs = replicate N r"
    using main rep that by (simp add: algebra_simps del: map_replicate)
  with main show ?thesis by blast
qed

theorem waiting_distance_loglik_witness:
  "get_ms_smc_loglik_from_embedding unit_tree_lambdas unit_topo_lambdas three_trees
       (Fin (1 / 10)) (map Fin [5, 0, 2]) 0 None = Inr (Fin (11 - ln 2 - ln 3))
   \<and> get_ms_smc_loglik_from_embedding unit_tree_lambdas unit_topo_lambdas three_trees
       (Fin (1 / 10)) (map Fin [2, 2, 2]) 1 None = Inr (Fin (real 3 * (- (ln 1 - 1 * 2))))"
proof -
  have r0: "waiting_rates unit_tree_lambdas unit_topo_lambdas three_trees (Fin (1 / 10)) 0 None
              = Inr (map Fin [1, 2, 3])"
    by (simp add: waiting_rates_def get_recomb_event_lambdas_def three_trees_def)
  have r1: "waiting_rates unit_tree_lambdas unit_topo_lambdas three_trees (Fin (1 / 10)) 1 None
              = Inr (map Fin [1, 1, 1])"
    by (simp add: waiting_rates_def unit_tree_lambdas_def three_trees_def)
  have a: "length [5, 0, 2 :: real] = length [1, 2, 3 :: real]"
    and b: "\<forall>r\<in>set [1, 2, 3 :: real]. 0 < r"
    and c: "\<forall>l\<in>set [5, 0, 2 :: real]. 0 \<le> l" by simp_all
  have a': "length [2, 2, 2 :: real] = length [1, 1, 1 :: real]"
    and b': "\<forall>r\<in>set [1, 1, 1 :: real]. 0 < r"
    and c': "\<forall>l\<in>set [2, 2, 2 :: real]. 0 \<le> l" by simp_all
  show ?thesis
    using waiting_distance_loglik [OF r0 a b c, of 0 0 0]
          waiting_distance_loglik [OF r1 a' b' c', of 3 2 1]
    by (simp add: eval_nat_numeral)
qed

text \<open>
  Claim C6, as stated, fails: the kernel does not compare the two counts itself, and
  broadcasting repeats an array of length one. With three rates and one waiting distance
  the call returns a value.
\<close>

theorem broadcast_accepts_length_one:
  "waiting_rates unit_tree_lambdas unit_topo_lambdas three_trees (Fin (1 / 10)) 0 None
     = Inr [Fin 1, Fin 2, Fin 3]
   \<and> length [Fin 5] \<noteq> length [Fin 1, Fin 2, Fin 3]
   \<and> get_ms_smc_loglik_from_embedding unit_tree_lambdas unit_topo_lambdas three_trees
       (Fin (1 / 10)) [Fin 5] 0 None = Inr (Fin (30 - ln 2 - ln 3))"
  by (simp add: get_ms_smc_loglik_from_embedding_def waiting_rates_def
      get_recomb_event_lambdas_def three_trees_def expon_logpdf_def broadcast2_def
      expon_logpdf1_def fsub_def fsum_def ln_div)

text \<open>
  Claim C6, amended. A call in which the number of waiting distances differs from the
  number of rates produced, and neither number is one, fails with the broadcasting error
  and returns no value.
\<close>

theorem shape_mismatch_rejected:
  assumes "waiting_rates tree_fn topo_fn e rr event_type idxs = Inr rates"
    and "length lengths \<noteq> length rates"
    and "length lengths \<noteq> 1"
    and "length rates \<noteq> 1"
  shows "get_ms_smc_loglik_from_embedding tree_fn topo_fn e rr lengths event_type idxs
           = Inl BroadcastError"
  using assms
  by (simp add: get_ms_smc_loglik_from_embedding_def expon_logpdf_def broadcast2_def)

theorem shape_mismatch_rejected_witness:
  "get_ms_smc_loglik_from_embedding unit_tree_lambdas unit_topo_lambdas three_trees
       (Fin (1 / 10)) [Fin 5, Fin 6] 0 None = Inl BroadcastError"
proof -
  have r0: "waiting_rates unit_tree_lambdas unit_topo_lambdas three_trees (Fin (1 / 10)) 0 None
              = Inr [Fin 1, Fin 2, Fin 3]"
    by (simp add: waiting_rates_def get_recomb_event_lambdas_def three_trees_def)
  show ?thesis
    using shape_mismatch_rejected [OF r0, of "[Fin 5, Fin 6]"] by simp
qed

text \<open>
  Claim C7, as stated, fails: the selector 5 is not rejected. The final \<open>else\<close> of the
  dispatch hands it to the provider of topology-change rates, and the kernel returns a
  value.
\<close>

theorem unknown_selector_accepted:
  "waiting_rates unit_tree_lambdas unit_topo_lambdas three_trees (Fin 1) 5 None
     = Inr [Fin 2, Fin 2, Fin 2]
   \<and> get_ms_smc_loglik_from_embedding unit_tree_lambdas unit_topo_lambdas three_trees
       (Fin 1) [Fin 1, Fin 1, Fin 1] 5 None = Inr (Fin (6 - 3 * ln 2))"
  by (simp add: get_ms_smc_loglik_from_embedding_def waiting_rates_def
      unit_topo_lambdas_def three_trees_def expon_logpdf_def broadcast2_def
      expon_logpdf1_def fsub_def fsum_def ln_div eval_nat_numeral)

text \<open>
  Claim C7, amended. Every selector other than 0 and 1 is dispatched to the provider of
  topology-change rates, so the kernel returns for it what it returns for the selector 2;
  the dispatch raises no error of its own.
\<close>

theorem selector_dispatch:
  assumes "event_type \<noteq> 0" and "event_type \<noteq> 1"
  shows "waiting_rates tree_fn topo_fn e rr event_type idxs
           = topo_fn (emb e) (enc e) (barr e) (sarr e) (rarr e) rr
               (case idxs of None \<Rightarrow> map int [0..<length (emb e)] | Some given \<Rightarrow> given)
       \<and> get_ms_smc_loglik_from_embedding tree_fn topo_fn e rr lengths event_type idxs
           = get_ms_smc_loglik_from_embedding tree_fn topo_fn e rr lengths 2 idxs"
  using assms
  by (simp add: get_ms_smc_loglik_from_embedding_def waiting_rates_def)

theorem selector_dispatch_witness:
  "waiting_rates unit_tree_lambdas unit_topo_lambdas three_trees (Fin 1) (- 1) (Some [0, 2])
     = Inr [Fin 2, Fin 2]
   \<and> get_ms_smc_loglik_from_embedding unit_tree_lambdas unit_topo_lambdas three_trees
       (Fin 1) [Fin 1, Fin 1] (- 1) (Some [0, 2])
     = get_ms_smc_loglik_from_embedding unit_tree_lambdas unit_topo_lambdas three_trees
       (Fin 1) [Fin 1, Fin 1] 2 (Some [0, 2])"
  using selector_dispatch [of "- 1" unit_tree_lambdas unit_topo_lambdas three_trees "Fin 1"
      "Some [0, 2]" "[Fin 1, Fin 1]"]
  by (simp add: unit_topo_lambdas_def eval_nat_numeral)

text \<open>
  Claim C8. For the selector 0 the index subset reaches \<open>get_recomb_event_lambdas\<close> among
  the keyword arguments it does not read. With three genealogies of total branch lengths
  10, 20 and 30, the recombination rate 2 and the subset that selects the genealogy 1
  alone, the rates returned are 20, 40 and 60: one for every genealogy of the embedding,
  not one for the subset. A provider that honours the subset returns one rate there.
\<close>

theorem recomb_rates_ignore_subset:
  "waiting_rates unit_tree_lambdas unit_topo_lambdas three_trees (Fin 2) 0 (Some [1])
     = Inr [Fin 20, Fin 40, Fin 60]
   \<and> waiting_rates unit_tree_lambdas unit_topo_lambdas three_trees (Fin 2) 1 (Some [1])
     = Inr [Fin 1]"
  by (simp add: waiting_rates_def get_recomb_event_lambdas_def unit_tree_lambdas_def
      three_trees_def)

section \<open>The population-size update\<close>

lemma feq_sym: "feq x y \<Longrightarrow> feq y x"
  by (cases x; cases y) simp_all

lemma feq_trans: "feq x y \<Longrightarrow> feq y z \<Longrightarrow> feq x z"
  by (cases x; cases y; cases z) simp_all

lemma feq_Fin_unique: "feq x (Fin a) \<Longrightarrow> feq x (Fin b) \<Longrightarrow> a = b"
  by (cases x) simp_all

lemma py_set_len_Cons_pos: "0 < py_set_len (x # xs)"
  by (induction xs arbitrary: x) simp_all

lemma py_set_len_all_equal:
  "\<forall>p\<in>set xs. feq p x \<Longrightarrow> py_set_len (x # xs) = 1"
proof (induction xs arbitrary: x)
  case Nil
  show ?case by simp
next
  case (Cons y ys)
  then have yx: "feq y x" and rest: "\<forall>p\<in>set ys. feq p x" by simp_all
  have "\<forall>p\<in>set ys. feq p y"
    using rest yx by (blast intro: feq_trans feq_sym)
  then have "py_set_len (y # ys) = 1" by (rule Cons.IH)
  moreover have "list_ex (feq x) (y # ys)"
    using yx by (simp add: feq_sym)
  ultimately show ?case by (simp del: list_ex_Cons_iff)
qed

lemma py_set_len_one_equal:
  "py_set_len (x # xs) = 1 \<Longrightarrow> \<forall>p\<in>set xs. feq p x"
proof (induction xs arbitrary: x)
  case Nil
  show ?case by simp
next
  case (Cons y ys)
  have pos: "0 < py_set_len (y # ys)" by (rule py_set_len_Cons_pos)
  have ex: "list_ex (feq x) (y # ys)"
  proof (rule ccontr)
    assume "\<not> list_ex (feq x) (y # ys)"
    then have "py_set_len (x # y # ys) = Suc (py_set_len (y # ys))"
      by (simp del: list_ex_Cons_iff)
    with Cons.prems pos show False by simp
  qed
  then have one: "py_set_len (y # ys) = 1"
    using Cons.prems by (simp del: list_ex_Cons_iff)
  then have ys: "\<forall>p\<in>set ys. feq p y" by (rule Cons.IH)
  from ex obtain z where z: "z \<in> set (y # ys)" and xz: "feq x z"
    by (auto simp: list_ex_iff)
  have xy: "feq x y"
  proof (cases "z = y")
    case True
    with xz show ?thesis by simp
  next
    case False
    with z have "z \<in> set ys" by simp
    with ys have "feq z y" by blast
    with xz show ?thesis by (rule feq_trans)
  qed
  then have yx: "feq y x" by (rule feq_sym)
  have "\<forall>p\<in>set ys. feq p x"
    using ys yx by (blast intro: feq_trans)
  with yx show ?case by simp
qed

lemma py_set_len_one_iff:
  "py_set_len ps = 1 \<longleftrightarrow> ps \<noteq> [] \<and> (\<forall>p\<in>set (tl ps). feq p (ps ! 0))"
proof (cases ps)
  case Nil
  then show ?thesis by simp
next
  case (Cons x xs)
  have "py_set_len (x # xs) = 1 \<longleftrightarrow> (\<forall>p\<in>set xs. feq p x)"
    using py_set_len_all_equal py_set_len_one_equal by blast
  with Cons show ?thesis by simp
qed

lemma branch_loop_rows:
  "branch_loop a pairs =
     map (map (\<lambda>r. foldl (\<lambda>r (i, p). if feq (r ! 2) (Fin (real i)) then r[3 := p] else r) r pairs)) a"
  by (induction pairs arbitrary: a) (auto simp: assign_branch_def)

lemma row_loop_length:
  "length (foldl (\<lambda>r (i, p). if feq (r ! 2) (Fin (real i)) then r[3 := p] else r) r pairs) = length r"
  by (induction pairs arbitrary: r) auto

lemma row_loop_other:
  "j \<noteq> 3 \<Longrightarrow>
   foldl (\<lambda>r (i, p). if feq (r ! 2) (Fin (real i)) then r[3 := p] else r) r pairs ! j = r ! j"
  by (induction pairs arbitrary: r) auto

lemma row_loop_no_match:
  "\<forall>(i, p)\<in>set pairs. \<not> feq (r ! 2) (Fin (real i)) \<Longrightarrow>
   foldl (\<lambda>r (i, p). if feq (r ! 2) (Fin (real i)) then r[3 := p] else r) r pairs = r"
  by (induction pairs arbitrary: r) auto

lemma row_loop_match:
  assumes "distinct (map fst pairs)" and "(i, p) \<in> set pairs"
    and "feq (r ! 2) (Fin (real i))" and "3 < length r"
  shows "foldl (\<lambda>r (i, p). if feq (r ! 2) (Fin (real i)) then r[3 := p] else r) r pairs ! 3 = p"
  using assms
proof (induction pairs arbitrary: r)
  case Nil
  then show ?case by simp
next
  case (Cons q rest)
  obtain i' p' where q: "q = (i', p')" by (cases q)
  let ?step = "\<lambda>r (i, p). if feq (r ! 2) (Fin (real i)) then r[3 := p] else r"
  show ?case
  proof (cases "(i, p) = q")
    case True
    with q have eq: "i' = i" "p' = p" by simp_all
    have nomatch: "\<forall>(j, v)\<in>set rest. \<not> feq (r[3 := p] ! 2) (Fin (real j))"
    proof (clarify)
      fix j v assume jv: "(j, v) \<in> set rest" and m: "feq (r[3 := p] ! 2) (Fin (real j))"
      from m have "feq (r ! 2) (Fin (real j))" by simp
      with Cons.prems(3) have "real i = real j" by (rule feq_Fin_unique)
      then have "i = j" by simp
      moreover from jv have "j \<in> fst ` set rest" by force
      ultimately show False using Cons.prems(1) q eq by simp
    qed
    have "foldl ?step r (q # rest) = foldl ?step (r[3 := p]) rest"
      using q eq Cons.prems(3) by simp
    also have "\<dots> = r[3 := p]" using nomatch by (rule row_loop_no_match)
    finally show ?thesis using Cons.prems(4) by simp
  next
    case False
    with Cons.prems(2) have mem: "(i, p) \<in> set rest" by simp
    from Cons.prems(1) have d: "distinct (map fst rest)" by simp
    let ?r' = "?step r q"
    have r2: "?r' ! 2 = r ! 2" and len: "length ?r' = length r"
      using q by auto
    have "foldl ?step ?r' rest ! 3 = p"
      using d mem Cons.prems(3,4) r2 len by (intro Cons.IH) simp_all
    then show ?thesis by simp
  qed
qed

lemma enumerate_pairs:
  "distinct (map fst (enumerate 0 ps))"
  "i < length ps \<Longrightarrow> (i, ps ! i) \<in> set (enumerate 0 ps)"
  "(i, p) \<in> set (enumerate 0 ps) \<Longrightarrow> i < length ps"
  by (simp_all add: in_set_enumerate_eq)

lemma has_cols_nth:
  "has_cols n a \<Longrightarrow> g < length a \<Longrightarrow> k < length (a ! g) \<Longrightarrow> n \<le> length (a ! g ! k)"
  by (simp add: has_cols_def list_all_length)

lemma fle_not_index:
  "fle (Fin (real n)) x \<Longrightarrow> i < n \<Longrightarrow> \<not> feq x (Fin (real i))"
  by (cases x) auto

lemma update_neffs_broadcast:
  assumes "py_set_len ps = 1" and "has_cols 4 a"
  shows "update_neffs a ps = Inr (map (map (\<lambda>r. r[3 := ps ! 0])) a)"
  using assms by (simp add: update_neffs_def)

lemma update_neffs_branches:
  assumes "py_set_len ps \<noteq> 1" and "ps = [] \<or> has_cols 4 a"
  shows "update_neffs a ps = Inr (branch_loop a (enumerate 0 ps))"
  using assms by (auto simp: update_neffs_def enumerate_eq_zip)

lemma branch_loop_nth:
  assumes "g < length a" and "k < length (a ! g)"
  shows "branch_loop a pairs ! g ! k =
           foldl (\<lambda>r (i, p). if feq (r ! 2) (Fin (real i)) then r[3 := p] else r) (a ! g ! k) pairs"
  using assms by (simp add: branch_loop_rows)

text \<open>
  Claim C9. On an array with the population-size column the update succeeds, keeps the
  shape of the array and writes column 3. When the vector is not empty and every entry
  after the first compares equal to the first, every row receives that value. Otherwise
  a row whose column 2 equals the branch index \<open>i\<close> receives the \<open>i\<close>-th value, and a
  row whose column 2 equals no index of the vector keeps its value. The value stored is
  the entry of the vector itself: nothing is rescaled.
\<close>

theorem update_neffs_assigns:
  assumes "has_cols 4 a" and "g < length a" and "k < length (a ! g)"
  shows "\<exists>a'. update_neffs a ps = Inr a'
           \<and> length a' = length a \<and> length (a' ! g) = length (a ! g)
           \<and> (ps \<noteq> [] \<and> (\<forall>p\<in>set (tl ps). feq p (ps ! 0)) \<longrightarrow> a' ! g ! k ! 3 = ps ! 0)
           \<and> (\<not> (ps \<noteq> [] \<and> (\<forall>p\<in>set (tl ps). feq p (ps ! 0))) \<longrightarrow>
                (\<forall>i<length ps. feq (a ! g ! k ! 2) (Fin (real i)) \<longrightarrow> a' ! g ! k ! 3 = ps ! i)
              \<and> ((\<forall>i<length ps. \<not> feq (a ! g ! k ! 2) (Fin (real i))) \<longrightarrow>
                    a' ! g ! k ! 3 = a ! g ! k ! 3))"
proof (cases "py_set_len ps = 1")
  case True
  then have alleq: "ps \<noteq> [] \<and> (\<forall>p\<in>set (tl ps). feq p (ps ! 0))"
    using py_set_len_one_iff by blast
  have len: "3 < length (a ! g ! k)"
    using has_cols_nth[OF assms(1,2,3)] by simp
  let ?a' = "map (map (\<lambda>r. r[3 := ps ! 0])) a"
  have "update_neffs a ps = Inr ?a'" using True assms(1) by (rule update_neffs_broadcast)
  moreover have "?a' ! g ! k ! 3 = ps ! 0" using assms(2,3) len by simp
  moreover have "length ?a' = length a" "length (?a' ! g) = length (a ! g)"
    using assms(2) by simp_all
  ultimately show ?thesis using alleq by blast
next
  case False
  then have noteq: "\<not> (ps \<noteq> [] \<and> (\<forall>p\<in>set (tl ps). feq p (ps ! 0)))"
    using py_set_len_one_iff by blast
  have len: "3 < length (a ! g ! k)"
    using has_cols_nth[OF assms(1,2,3)] by simp
  let ?a' = "branch_loop a (enumerate 0 ps)"
  have u: "update_neffs a ps = Inr ?a'"
    using False assms(1) by (intro update_neffs_branches) simp_all
  have shape: "length ?a' = length a" "length (?a' ! g) = length (a ! g)"
    using assms(2) by (simp_all add: branch_loop_rows)
  have row: "?a' ! g ! k = foldl (\<lambda>r (i, p). if feq (r ! 2) (Fin (real i)) then r[3 := p] else r)
                              (a ! g ! k) (enumerate 0 ps)"
    using assms(2,3) by (rule branch_loop_nth)
  have m: "?a' ! g ! k ! 3 = ps ! i" if "i < length ps" "feq (a ! g ! k ! 2) (Fin (real i))" for i
    unfolding row
    using enumerate_pairs(1) enumerate_pairs(2)[OF that(1)] that(2) len
    by (rule row_loop_match)
  have n: "?a' ! g ! k ! 3 = a ! g ! k ! 3" if "\<forall>i<length ps. \<not> feq (a ! g ! k ! 2) (Fin (real i))"
  proof -
    have "\<forall>(i, p)\<in>set (enumerate 0 ps). \<not> feq (a ! g ! k ! 2) (Fin (real i))"
      using that by (auto dest: enumerate_pairs(3))
    then show ?thesis unfolding row by (simp only: row_loop_no_match)
  qed
  have c1: "ps \<noteq> [] \<and> (\<forall>p\<in>set (tl ps). feq p (ps ! 0)) \<longrightarrow> ?a' ! g ! k ! 3 = ps ! 0"
    using noteq by blast
  have c2: "\<not> (ps \<noteq> [] \<and> (\<forall>p\<in>set (tl ps). feq p (ps ! 0))) \<longrightarrow>
                (\<forall>i<length ps. feq (a ! g ! k ! 2) (Fin (real i)) \<longrightarrow> ?a' ! g ! k ! 3 = ps ! i)
              \<and> ((\<forall>i<length ps. \<not> feq (a ! g ! k ! 2) (Fin (real i))) \<longrightarrow>
                    ?a' ! g ! k ! 3 = a ! g ! k ! 3)"
    using m n by blast
  show ?thesis
    by (rule exI[of _ ?a']) (intro conjI u shape c1 c2)
qed

theorem update_neffs_assigns_witness:
  "update_neffs [[[Fin 0, Fin 4, Fin 0, Fin 1, Fin 2, Fin 4],
                  [Fin 4, PInf, Fin 2, Fin 1, Fin 1, PInf]]] [Fin 5, Fin 7, Fin 9]
     = Inr [[[Fin 0, Fin 4, Fin 0, Fin 5, Fin 2, Fin 4],
             [Fin 4, PInf, Fin 2, Fin 9, Fin 1, PInf]]]
   \<and> update_neffs [[[Fin 0, Fin 4, Fin 0, Fin 1, Fin 2, Fin 4],
                    [Fin 4, PInf, Fin 2, Fin 1, Fin 1, PInf]]] [Fin 6, Fin 6, Fin 6]
     = Inr [[[Fin 0, Fin 4, Fin 0, Fin 6, Fin 2, Fin 4],
             [Fin 4, PInf, Fin 2, Fin 6, Fin 1, PInf]]]"
  using update_neffs_assigns [of "[[[Fin 0, Fin 4, Fin 0, Fin 1, Fin 2, Fin 4],
                  [Fin 4, PInf, Fin 2, Fin 1, Fin 1, PInf]]]" 0 1 "[Fin 5, Fin 7, Fin 9]"]
        update_neffs_assigns [of "[[[Fin 0, Fin 4, Fin 0, Fin 1, Fin 2, Fin 4],
                  [Fin 4, PInf, Fin 2, Fin 1, Fin 1, PInf]]]" 0 1 "[Fin 6, Fin 6, Fin 6]"]
  by (simp add: update_neffs_def has_cols_def assign_branch_def)

text \<open>
  Claim C10. A call that returns leaves the shape of the array and every entry outside
  column 3 as they were. When the vector does not hold exactly one distinct value, a row
  whose column 2 is at least the length of the vector keeps its column 3. When the vector
  holds exactly one distinct value, column 3 of every row is overwritten with it,
  whatever the row's column 2.
\<close>

theorem update_neffs_frame:
  assumes "update_neffs a ps = Inr a'" and "g < length a" and "k < length (a ! g)"
  shows "length a' = length a \<and> length (a' ! g) = length (a ! g)
       \<and> length (a' ! g ! k) = length (a ! g ! k)
       \<and> (\<forall>j. j \<noteq> 3 \<longrightarrow> a' ! g ! k ! j = a ! g ! k ! j)
       \<and> (py_set_len ps \<noteq> 1 \<and> fle (Fin (real (length ps))) (a ! g ! k ! 2) \<longrightarrow>
            a' ! g ! k ! 3 = a ! g ! k ! 3)
       \<and> (py_set_len ps = 1 \<longrightarrow> a' ! g ! k ! 3 = ps ! 0)"
proof (cases "py_set_len ps = 1")
  case True
  with assms(1) have hc: "has_cols 4 a" and a': "a' = map (map (\<lambda>r. r[3 := ps ! 0])) a"
    by (auto simp: update_neffs_def split: if_splits)
  have len: "3 < length (a ! g ! k)"
    using has_cols_nth[OF hc assms(2,3)] by simp
  have "a' ! g ! k = (a ! g ! k)[3 := ps ! 0]"
    using assms(2,3) by (simp add: a')
  moreover have "length a' = length a" "length (a' ! g) = length (a ! g)"
    using assms(2) by (simp_all add: a')
  ultimately show ?thesis using True len by simp
next
  case False
  with assms(1) have a': "a' = branch_loop a (enumerate 0 ps)"
    by (auto simp: update_neffs_def enumerate_eq_zip split: if_splits)
  have row: "a' ! g ! k = foldl (\<lambda>r (i, p). if feq (r ! 2) (Fin (real i)) then r[3 := p] else r)
                              (a ! g ! k) (enumerate 0 ps)"
    unfolding a' using assms(2,3) by (rule branch_loop_nth)
  have shape: "length a' = length a" "length (a' ! g) = length (a ! g)"
    using assms(2) by (simp_all add: a' branch_loop_rows)
  have n: "a' ! g ! k ! 3 = a ! g ! k ! 3" if "fle (Fin (real (length ps))) (a ! g ! k ! 2)"
  proof -
    have "\<forall>(i, p)\<in>set (enumerate 0 ps). \<not> feq (a ! g ! k ! 2) (Fin (real i))"
      using fle_not_index[OF that] by (auto dest: enumerate_pairs(3))
    then show ?thesis unfolding row by (simp only: row_loop_no_match)
  qed
  have l3: "length (a' ! g ! k) = length (a ! g ! k)"
    unfolding row by (rule row_loop_length)
  have oth: "\<forall>j. j \<noteq> 3 \<longrightarrow> a' ! g ! k ! j = a ! g ! k ! j"
    unfolding row using row_loop_other by blast
  show ?thesis using False shape l3 oth n by blast
qed

theorem update_neffs_frame_witness:
  "update_neffs [[[Fin 0, Fin 4, Fin 0, Fin 1, Fin 2, Fin 4],
                  [Fin 4, PInf, Fin 2, Fin 1, Fin 1, PInf]]] [Fin 5, Fin 7]
     = Inr [[[Fin 0, Fin 4, Fin 0, Fin 5, Fin 2, Fin 4],
             [Fin 4, PInf, Fin 2, Fin 1, Fin 1, PInf]]]
   \<and> update_neffs [[[Fin 0, Fin 4, Fin 0, Fin 1, Fin 2, Fin 4],
                    [Fin 4, PInf, Fin 2, Fin 1, Fin 1, PInf]]] [Fin 6, Fin 6]
     = Inr [[[Fin 0, Fin 4, Fin 0, Fin 6, Fin 2, Fin 4],
             [Fin 4, PInf, Fin 2, Fin 6, Fin 1, PInf]]]"
proof -
  have u1: "update_neffs [[[Fin 0, Fin 4, Fin 0, Fin 1, Fin 2, Fin 4],
                  [Fin 4, PInf, Fin 2, Fin 1, Fin 1, PInf]]] [Fin 5, Fin 7]
     = Inr [[[Fin 0, Fin 4, Fin 0, Fin 5, Fin 2, Fin 4],
             [Fin 4, PInf, Fin 2, Fin 1, Fin 1, PInf]]]"
    by (simp add: update_neffs_def has_cols_def assign_branch_def)
  have u2: "update_neffs [[[Fin 0, Fin 4, Fin 0, Fin 1, Fin 2, Fin 4],
                    [Fin 4, PInf, Fin 2, Fin 1, Fin 1, PInf]]] [Fin 6, Fin 6]
     = Inr [[[Fin 0, Fin 4, Fin 0, Fin 6, Fin 2, Fin 4],
             [Fin 4, PInf, Fin 2, Fin 6, Fin 1, PInf]]]"
    by (simp add: update_neffs_def has_cols_def assign_branch_def)
  show ?thesis
    using update_neffs_frame [OF u1, of 0 1] update_neffs_frame [OF u2, of 0 1] u1 u2
    by simp
qed

end
